theory Spec2Isabelle
  imports Complex_Main "HOL-Library.Multiset" "HOL-Library.Log_Nat"
begin

section \<open>Data of edge\_processor.cpp\<close>

text \<open>
  \<open>cv::Point\<close> has two \<open>int\<close> fields. The code only compares them and converts them to
  \<open>jfloat\<close>; it never does arithmetic on them, so the 32-bit range plays no role and the
  fields are integers.
\<close>

datatype point = Point (px: int) (py: int)

text \<open>
  \<open>cv::Point2f\<close> has two \<open>float\<close> fields. A finite \<open>jfloat\<close> or \<open>double\<close> value is
  the real number it denotes; the arithmetic of \<open>enhanceAndWarp\<close> on such values rounds
  its results to single precision (section enhanceAndWarp). NaN and the infinities are
  not values of this model.
\<close>

datatype point2f = Point2f (fx: real) (fy: real)

datatype adaptive_method = ADAPTIVE_THRESH_MEAN_C | ADAPTIVE_THRESH_GAUSSIAN_C

datatype threshold_type = THRESH_BINARY | THRESH_BINARY_INV

text \<open>
  The OpenCV functions the file calls are not part of the repository: they are the fields of
  a record that every function of the model takes as its first argument. \<open>'mat\<close> is
  \<open>cv::Mat\<close>. The flags that the source passes as constants (\<open>COLOR_BGR2GRAY\<close>,
  \<open>RETR_LIST\<close>, \<open>CHAIN_APPROX_SIMPLE\<close>) are fixed in the field. \<open>rows\<close>, \<open>cols\<close>,
  \<open>pixel\<close> read a single-channel matrix, and \<open>gaussianMean m b y x\<close> is the Gaussian-weighted
  mean of the \<open>b \<times> b\<close> neighbourhood of pixel \<open>(y, x)\<close> of \<open>m\<close>.
\<close>

record 'mat opencv =
  imread :: "string \<Rightarrow> 'mat"
  mat_empty :: "'mat \<Rightarrow> bool"
  cvtColor_BGR2GRAY :: "'mat \<Rightarrow> 'mat"
  GaussianBlur :: "'mat \<Rightarrow> nat \<times> nat \<Rightarrow> real \<Rightarrow> 'mat"
  Canny :: "'mat \<Rightarrow> real \<Rightarrow> real \<Rightarrow> 'mat"
  findContours_LIST_SIMPLE :: "'mat \<Rightarrow> point list list"
  contourArea :: "point list \<Rightarrow> real"
  arcLength :: "point list \<Rightarrow> bool \<Rightarrow> real"
  approxPolyDP :: "point list \<Rightarrow> real \<Rightarrow> bool \<Rightarrow> point list"
  getPerspectiveTransform :: "point2f list \<Rightarrow> point2f list \<Rightarrow> 'mat"
  warpPerspective :: "'mat \<Rightarrow> 'mat \<Rightarrow> int \<times> int \<Rightarrow> 'mat"
  adaptiveThreshold ::
    "'mat \<Rightarrow> real \<Rightarrow> adaptive_method \<Rightarrow> threshold_type \<Rightarrow> nat \<Rightarrow> real \<Rightarrow> 'mat"
  imwrite :: "string \<Rightarrow> 'mat \<Rightarrow> int list \<Rightarrow> bool"
  rows :: "'mat \<Rightarrow> nat"
  cols :: "'mat \<Rightarrow> nat"
  pixel :: "'mat \<Rightarrow> nat \<Rightarrow> nat \<Rightarrow> real"
  gaussianMean :: "'mat \<Rightarrow> nat \<Rightarrow> nat \<Rightarrow> nat \<Rightarrow> real"

section \<open>detectDocumentContour\<close>

text \<open>
  \<open>(jfloat)n\<close> for an \<open>int\<close> \<open>n\<close> is the nearest number with a 24-bit significand, ties
  going to the even significand. \<open>round_at k a\<close> rounds \<open>a\<close> to a multiple of \<open>2 ^ k\<close>
  in that way; below \<open>2 ^ 24\<close> in absolute value the conversion is exact, and from there on
  \<open>k\<close> is the number of bits of \<open>\<bar>n\<bar>\<close> beyond 24.
\<close>

definition round_at :: "nat \<Rightarrow> int \<Rightarrow> int" where
  "round_at k a =
     (let q = a div 2 ^ k;
          r = a mod 2 ^ k;
          h = 2 ^ (k - 1)
      in if h < r \<or> (r = h \<and> odd q) then (q + 1) * 2 ^ k else q * 2 ^ k)"

definition jfloat_of_int :: "int \<Rightarrow> real" where
  "jfloat_of_int n =
     (let a = \<bar>n\<bar> in
      if a < 2 ^ 24 then of_int n
      else of_int (sgn n * round_at (nat (bitlen a - 24)) a))"

text \<open>Lines 25 to 31: the contours of the edge map of the image.\<close>

definition contours_of :: "'mat opencv \<Rightarrow> 'mat \<Rightarrow> point list list" where
  "contours_of cv img =
     (let gray = cvtColor_BGR2GRAY cv img;
          blurred = GaussianBlur cv gray (5, 5) 0;
          edged = Canny cv blurred 75 200
      in findContours_LIST_SIMPLE cv edged)"

text \<open>
  Lines 33 to 45: the loop over the contours, with the two variables it updates,
  \<open>maxArea\<close> and \<open>best\<close>.
\<close>

fun select_best :: "'mat opencv \<Rightarrow> point list list \<Rightarrow> real \<Rightarrow> point list \<Rightarrow> real \<times> point list"
  where
  "select_best cv [] maxArea best = (maxArea, best)"
| "select_best cv (c # cs) maxArea best =
     (if contourArea cv c < 1000 then select_best cv cs maxArea best
      else
        let approx = approxPolyDP cv c (0.02 * arcLength cv c True) True in
        if length approx = 4 \<and> \<bar>contourArea cv approx\<bar> > maxArea
        then select_best cv cs \<bar>contourArea cv approx\<bar> approx
        else select_best cv cs maxArea best)"

text \<open>
  Lines 54 to 65. \<open>std::sort\<close> with the comparator \<open>a.y < b.y\<close> is the argument
  \<open>std_sort\<close>: the order it leaves equal keys in is not fixed by the language. It keeps the
  size of the vector, so the four reads \<open>best[0]\<close> to \<open>best[3]\<close> are in range.
\<close>

definition order_points :: "(point list \<Rightarrow> point list) \<Rightarrow> point list \<Rightarrow> real list" where
  "order_points std_sort best0 =
     (let best = std_sort best0;
          tl = (if px (best ! 0) < px (best ! 1) then best ! 0 else best ! 1);
          tr = (if px (best ! 0) < px (best ! 1) then best ! 1 else best ! 0);
          bl = (if px (best ! 2) < px (best ! 3) then best ! 2 else best ! 3);
          br = (if px (best ! 2) < px (best ! 3) then best ! 3 else best ! 2)
      in [jfloat_of_int (px tl), jfloat_of_int (py tl),
          jfloat_of_int (px tr), jfloat_of_int (py tr),
          jfloat_of_int (px br), jfloat_of_int (py br),
          jfloat_of_int (px bl), jfloat_of_int (py bl)])"

text \<open>Lines 30 to 45: the polygon that the loop leaves in \<open>best\<close>.\<close>

definition best_polygon :: "'mat opencv \<Rightarrow> 'mat \<Rightarrow> point list" where
  "best_polygon cv img = snd (select_best cv (contours_of cv img) 0 [])"

text \<open>
  The JNI function: \<open>None\<close> is the returned \<open>nullptr\<close>, \<open>Some coords\<close> the new
  \<open>jfloatArray\<close> of 8 values.
\<close>

definition detectDocumentContour ::
  "'mat opencv \<Rightarrow> (point list \<Rightarrow> point list) \<Rightarrow> string \<Rightarrow> real list option" where
  "detectDocumentContour cv std_sort imagePath =
     (let img = imread cv imagePath in
      if mat_empty cv img then None
      else
        let best = best_polygon cv img
        in if length best \<noteq> 4 then None
           else Some (order_points std_sort best))"

text \<open>
  The polygon that line 40 computes for a contour, its area as line 41 takes it, and the
  two tests a contour passes to reach the comparison with \<open>maxArea\<close>.
\<close>

definition simplified :: "'mat opencv \<Rightarrow> point list \<Rightarrow> point list" where
  "simplified cv c = approxPolyDP cv c (0.02 * arcLength cv c True) True"

definition polygon_size :: "'mat opencv \<Rightarrow> point list \<Rightarrow> real" where
  "polygon_size cv c = \<bar>contourArea cv (simplified cv c)\<bar>"

definition survives :: "'mat opencv \<Rightarrow> point list \<Rightarrow> bool" where
  "survives cv c \<longleftrightarrow> \<not> contourArea cv c < 1000 \<and> length (simplified cv c) = 4"

text \<open>
  What the C++ standard promises of \<open>std::sort(first, last, comp)\<close> with
  \<open>comp a b = a.y < b.y\<close>: the range holds the same elements, and no later element
  compares less than an earlier one.
\<close>

definition std_sort_contract :: "(point list \<Rightarrow> point list) \<Rightarrow> bool" where
  "std_sort_contract std_sort \<longleftrightarrow>
     (\<forall>xs. mset (std_sort xs) = mset xs \<and> sorted_wrt (\<lambda>a b. \<not> py b < py a) (std_sort xs))"

section \<open>enhanceAndWarp\<close>

text \<open>
  Single-precision arithmetic. \<open>round32 v\<close> is the binary32 number nearest to \<open>v\<close>, ties
  going to the even significand: the unit in the last place of \<open>v\<close> is
  \<open>2 powi ulp_exponent v\<close>, 23 binary places below the leading bit of \<open>v\<close> and never
  below \<open>2 powi (- 149)\<close>, the spacing of the subnormal numbers. The exponent has no upper
  limit here: where binary32 arithmetic overflows to infinity, \<open>round32\<close> gives a number
  of at least \<open>2 ^ 127\<close>; both are beyond the range of \<open>int\<close>, where the casts of line 116
  are undefined.
\<close>

definition round_even :: "real \<Rightarrow> int" where
  "round_even r =
     (let f = \<lfloor>r\<rfloor>; d = r - of_int f in
      if d < 1 / 2 then f
      else if 1 / 2 < d then f + 1
      else if even f then f else f + 1)"

definition ulp_exponent :: "real \<Rightarrow> int" where
  "ulp_exponent v = max (\<lfloor>log 2 \<bar>v\<bar>\<rfloor> - 23) (- 149)"

definition round32 :: "real \<Rightarrow> real" where
  "round32 v =
     (if v = 0 then 0
      else of_int (round_even (v / 2 powi ulp_exponent v)) * 2 powi ulp_exponent v)"

text \<open>The subtraction of two \<open>float\<close> values.\<close>

definition fsub :: "real \<Rightarrow> real \<Rightarrow> real" where
  "fsub x y = round32 (x - y)"

text \<open>
  \<open>hypot\<close> of \<open><cmath>\<close> on two \<open>float\<close> arguments: the overload that returns a
  \<open>float\<close>, taken as correctly rounded.
\<close>

definition hypot :: "real \<Rightarrow> real \<Rightarrow> real" where
  "hypot x y = round32 (sqrt (x\<^sup>2 + y\<^sup>2))"

text \<open>
  \<open>(int)d\<close> for a \<open>double\<close> \<open>d\<close>: the fractional part is discarded; the behaviour is
  undefined (\<open>None\<close>) when the result does not fit a 32-bit \<open>int\<close>.
\<close>

definition int_cast :: "real \<Rightarrow> int option" where
  "int_cast d =
     (let t = (if 0 \<le> d then \<lfloor>d\<rfloor> else \<lceil>d\<rceil>) in
      if - (2 ^ 31) \<le> t \<and> t < 2 ^ 31 then Some t else None)"

text \<open>The value of \<open>cv::IMWRITE_JPEG_QUALITY\<close> in the OpenCV headers.\<close>

definition IMWRITE_JPEG_QUALITY :: int where
  "IMWRITE_JPEG_QUALITY = 1"

text \<open>Lines 96 and 97: the four source corners read from the first 8 values.\<close>

definition src_points :: "real list \<Rightarrow> point2f list" where
  "src_points pts = map (\<lambda>i. Point2f (pts ! (i * 2)) (pts ! (i * 2 + 1))) [0..<4]"

text \<open>Lines 100 to 106.\<close>

definition maxWidth :: "point2f list \<Rightarrow> real" where
  "maxWidth src =
     (let widthA = hypot (fsub (fx (src ! 2)) (fx (src ! 3))) (fsub (fy (src ! 2)) (fy (src ! 3)));
          widthB = hypot (fsub (fx (src ! 1)) (fx (src ! 0))) (fsub (fy (src ! 1)) (fy (src ! 0)))
      in max widthA widthB)"

definition maxHeight :: "point2f list \<Rightarrow> real" where
  "maxHeight src =
     (let heightA = hypot (fsub (fx (src ! 1)) (fx (src ! 2))) (fsub (fy (src ! 1)) (fy (src ! 2)));
          heightB = hypot (fsub (fx (src ! 0)) (fx (src ! 3))) (fsub (fy (src ! 0)) (fy (src ! 3)))
      in max heightA heightB)"

text \<open>
  Lines 108 to 112: \<open>(float)maxWidth - 1\<close> is the cast of the \<open>double\<close> to \<open>float\<close>
  and a subtraction of \<open>float\<close> values.
\<close>

definition dst_points :: "point2f list \<Rightarrow> point2f list" where
  "dst_points src =
     [Point2f 0 0,
      Point2f (fsub (round32 (maxWidth src)) 1) 0,
      Point2f (fsub (round32 (maxWidth src)) 1) (fsub (round32 (maxHeight src)) 1),
      Point2f 0 (fsub (round32 (maxHeight src)) 1)]"

text \<open>
  Lines 114 to 116, once both casts of line 116 are defined: the perspective transform
  from the four correspondences and the warp into \<open>Size(w, h)\<close>.
\<close>

definition warp :: "'mat opencv \<Rightarrow> 'mat \<Rightarrow> point2f list \<Rightarrow> int \<times> int \<Rightarrow> 'mat" where
  "warp cv img src dsize =
     (let M = getPerspectiveTransform cv src (dst_points src)
      in warpPerspective cv img M dsize)"

text \<open>Lines 119 to 121: the conversion to grey and the adaptive threshold.\<close>

definition enhance :: "'mat opencv \<Rightarrow> 'mat \<Rightarrow> 'mat" where
  "enhance cv warped =
     (let enhanced = cvtColor_BGR2GRAY cv warped
      in adaptiveThreshold cv enhanced 255 ADAPTIVE_THRESH_GAUSSIAN_C THRESH_BINARY 15 10)"

text \<open>
  What a call does: it returns \<open>JNI_FALSE\<close> at line 82 (\<open>LoadFailed\<close>) or at line 90
  (\<open>LengthInvalid\<close>), or it has undefined behaviour in a cast of line 116
  (\<open>CastUndefined\<close>), or it hands an image to \<open>imwrite\<close> and returns what \<open>imwrite\<close>
  returned (\<open>Written image ok\<close>).
\<close>

datatype 'mat outcome = LoadFailed | LengthInvalid | CastUndefined | Written 'mat bool

fun returned :: "'mat outcome \<Rightarrow> bool option" where
  "returned LoadFailed = Some False"
| "returned LengthInvalid = Some False"
| "returned CastUndefined = None"
| "returned (Written m ok) = Some ok"

definition enhanceAndWarp :: "'mat opencv \<Rightarrow> string \<Rightarrow> string \<Rightarrow> real list \<Rightarrow> 'mat outcome" where
  "enhanceAndWarp cv inputPath outputPath polygon =
     (let img = imread cv inputPath in
      if mat_empty cv img then LoadFailed
      else if length polygon < 8 then LengthInvalid
      else
        let pts = take 8 polygon;
            src = src_points pts
        in case (int_cast (maxWidth src), int_cast (maxHeight src)) of
             (Some w, Some h) \<Rightarrow>
               let warped = warp cv img src (w, h);
                   enhanced = enhance cv warped;
                   ok = imwrite cv outputPath enhanced [IMWRITE_JPEG_QUALITY, 95]
               in Written enhanced ok
           | _ \<Rightarrow> CastUndefined)"

section \<open>The specification's words\<close>

text \<open>The distance of two points, as the specification uses it for the output size.\<close>

definition distance :: "point2f \<Rightarrow> point2f \<Rightarrow> real" where
  "distance p q = sqrt ((fx p - fx q)\<^sup>2 + (fy p - fy q)\<^sup>2)"

text \<open>
  The distance as single-precision arithmetic computes it: each coordinate difference is
  rounded, and so is the hypotenuse.
\<close>

definition float_distance :: "point2f \<Rightarrow> point2f \<Rightarrow> real" where
  "float_distance p q =
     round32 (sqrt ((round32 (fx p - fx q))\<^sup>2 + (round32 (fy p - fy q))\<^sup>2))"

text \<open>
  Modelled from the spec: \<open>cv::adaptiveThreshold\<close>, a function of OpenCV that is not in
  the repository, as the specification describes the Enhancer. The result has the size of
  the source; for each pixel the local threshold is the Gaussian-weighted mean of the
  \<open>blockSize \<times> blockSize\<close> neighbourhood minus the constant \<open>C\<close>, and the pixel is compared
  with it: above the threshold it becomes \<open>maxValue\<close>, otherwise 0 (the direction that the
  flag \<open>THRESH_BINARY\<close> of the call names).
\<close>

definition adaptiveThreshold_spec :: "'mat opencv \<Rightarrow> bool" where
  "adaptiveThreshold_spec cv \<longleftrightarrow>
     (\<forall>src maxValue blockSize C.
        let dst = adaptiveThreshold cv src maxValue ADAPTIVE_THRESH_GAUSSIAN_C THRESH_BINARY
                    blockSize C
        in rows cv dst = rows cv src \<and> cols cv dst = cols cv src
           \<and> (\<forall>y<rows cv src. \<forall>x<cols cv src.
                 pixel cv dst y x =
                   (if gaussianMean cv src blockSize y x - C < pixel cv src y x
                    then maxValue else 0)))"

section \<open>A library to run the model on\<close>

text \<open>
  To evaluate the two functions on concrete inputs, the record is instantiated with a
  library that builds the term of the calls made: every matrix is the expression that
  produced it. Every image file loads (but the one of the empty path). For the pixel reads
  a loaded image is a page of uniform intensity 200, so every matrix is uniform and its
  local mean is its intensity; warping and grey conversion keep the intensity. For the
  selection loop the contours found in an image are the argument \<open>cs\<close>; a contour's area
  is the absolute value of the shoelace sum halved; polygon approximation returns the
  contour unchanged; \<open>imwrite\<close> succeeds.
\<close>

datatype mat =
    Read string
  | Gray mat
  | Blur mat "nat \<times> nat" real
  | Edges mat real real
  | Transform "point2f list" "point2f list"
  | Warp mat mat "int \<times> int"
  | Threshold mat real adaptive_method threshold_type nat real

fun shoelace :: "point \<Rightarrow> point list \<Rightarrow> int" where
  "shoelace p0 [] = 0"
| "shoelace p0 [p] = px p * py p0 - px p0 * py p"
| "shoelace p0 (p # q # ps) = px p * py q - px q * py p + shoelace p0 (q # ps)"

definition polygon_area :: "point list \<Rightarrow> real" where
  "polygon_area ps = (case ps of [] \<Rightarrow> 0 | p # _ \<Rightarrow> \<bar>of_int (shoelace p ps)\<bar> / 2)"

fun perimeter :: "point \<Rightarrow> point list \<Rightarrow> real" where
  "perimeter p0 [] = 0"
| "perimeter p0 [p] = sqrt ((of_int (px p0 - px p))\<^sup>2 + (of_int (py p0 - py p))\<^sup>2)"
| "perimeter p0 (p # q # ps) =
     sqrt ((of_int (px q - px p))\<^sup>2 + (of_int (py q - py p))\<^sup>2) + perimeter p0 (q # ps)"

fun mat_rows :: "mat \<Rightarrow> nat" where
  "mat_rows (Warp m t (w, h)) = nat h"
| "mat_rows (Gray m) = mat_rows m"
| "mat_rows (Blur m k s) = mat_rows m"
| "mat_rows (Edges m lo hi) = mat_rows m"
| "mat_rows (Threshold m v a t b c) = mat_rows m"
| "mat_rows (Read p) = 600"
| "mat_rows (Transform s d) = 3"

fun mat_cols :: "mat \<Rightarrow> nat" where
  "mat_cols (Warp m t (w, h)) = nat w"
| "mat_cols (Gray m) = mat_cols m"
| "mat_cols (Blur m k s) = mat_cols m"
| "mat_cols (Edges m lo hi) = mat_cols m"
| "mat_cols (Threshold m v a t b c) = mat_cols m"
| "mat_cols (Read p) = 800"
| "mat_cols (Transform s d) = 3"

fun intensity :: "mat \<Rightarrow> real" where
  "intensity (Read p) = 200"
| "intensity (Gray m) = intensity m"
| "intensity (Warp m t s) = intensity m"
| "intensity (Blur m k s) = intensity m"
| "intensity (Edges m lo hi) = 0"
| "intensity (Transform s d) = 0"
| "intensity (Threshold m v a t b c) =
     (if t = THRESH_BINARY then (if intensity m - c < intensity m then v else 0)
      else (if intensity m - c < intensity m then 0 else v))"

definition term_cv :: "point list list \<Rightarrow> mat opencv" where
  "term_cv cs =
     \<lparr> imread = Read,
       mat_empty = (\<lambda>m. m = Read []),
       cvtColor_BGR2GRAY = Gray,
       GaussianBlur = Blur,
       Canny = Edges,
       findContours_LIST_SIMPLE = (\<lambda>m. cs),
       contourArea = polygon_area,
       arcLength = (\<lambda>c closed. case c of [] \<Rightarrow> 0 | p # _ \<Rightarrow> perimeter p c),
       approxPolyDP = (\<lambda>c epsilon closed. c),
       getPerspectiveTransform = Transform,
       warpPerspective = Warp,
       adaptiveThreshold = Threshold,
       imwrite = (\<lambda>path m params. True),
       rows = mat_rows,
       cols = mat_cols,
       pixel = (\<lambda>m y x. intensity m),
       gaussianMean = (\<lambda>m b y x. intensity m) \<rparr>"

text \<open>Insertion sort on the vertical coordinate, an instance of \<open>std::sort\<close>.\<close>

definition sort_by_y :: "point list \<Rightarrow> point list" where
  "sort_by_y = sort_key py"

text \<open>
  The contours of a test image: a square of area 400, a triangle, the quadrilateral
  \<open>(100,120), (650,90), (680,540), (80,560)\<close> listed from its bottom right corner, and a
  rectangle of area 6000.
\<close>

definition scene :: "point list list" where
  "scene =
     [ [Point 10 10, Point 30 10, Point 30 30, Point 10 30],
      [Point 0 0, Point 400 0, Point 200 300],
      [Point 680 540, Point 80 560, Point 100 120, Point 650 90],
      [Point 200 200, Point 300 200, Point 300 260, Point 200 260] ]"

text \<open>The rounding of a non-negative integer, as an integer.\<close>

definition round24 :: "int \<Rightarrow> int" where
  "round24 a = (if a < 2 ^ 24 then a else round_at (nat (bitlen a - 24)) a)"

section \<open>The conversion to \<open>jfloat\<close>\<close>

lemma round_at_mono:
  assumes "a \<le> b"
  shows "round_at k a \<le> round_at k b"
proof -
  let ?p = "(2::int) ^ k"
  have p: "0 < ?p" by simp
  have qa: "a div ?p \<le> b div ?p" using assms by (simp add: zdiv_mono1)
  show ?thesis
  proof (cases "a div ?p = b div ?p")
    case True
    have "a mod ?p \<le> b mod ?p"
      using assms True by (metis add_le_cancel_left mult_div_mod_eq)
    then show ?thesis using True
      by (auto simp: round_at_def Let_def)
  next
    case False
    then have "a div ?p + 1 \<le> b div ?p" using qa by simp
    then have "(a div ?p + 1) * ?p \<le> b div ?p * ?p"
      by (simp add: mult_right_mono)
    moreover have "round_at k a \<le> (a div ?p + 1) * ?p"
      by (auto simp: round_at_def Let_def)
    moreover have "b div ?p * ?p \<le> round_at k b"
      by (auto simp: round_at_def Let_def)
    ultimately show ?thesis by linarith
  qed
qed

lemma round_at_multiple: "round_at k (m * 2 ^ k) = m * 2 ^ k"
  by (simp add: round_at_def Let_def)

lemma round_at_power: "round_at k (2 ^ (j + k)) = 2 ^ (j + k)"
  using round_at_multiple [of k "2 ^ j"] by (simp add: power_add)

lemma round_at_lower: "2 ^ (j + k) \<le> a \<Longrightarrow> 2 ^ (j + k) \<le> round_at k a"
  using round_at_mono [of "2 ^ (j + k)" a k] by (simp add: round_at_power)

lemma round_at_upper: "a \<le> 2 ^ (j + k) \<Longrightarrow> round_at k a \<le> 2 ^ (j + k)"
  using round_at_mono [of a "2 ^ (j + k)" k] by (simp add: round_at_power)

lemma jfloat_of_int_round24: "jfloat_of_int n = of_int (sgn n * round24 \<bar>n\<bar>)"
  by (cases "n = 0") (auto simp: jfloat_of_int_def round24_def Let_def sgn_if)

lemma big_bounds:
  assumes "2 ^ 24 \<le> (a::int)"
  defines "k \<equiv> nat (bitlen a - 24)"
  shows "2 ^ (23 + k) \<le> a" and "a < 2 ^ (24 + k)" and "1 \<le> k"
proof -
  have pos: "0 < a" using assms(1) by (smt (verit) zero_less_power)
  have b: "2 ^ nat (bitlen a - 1) \<le> a" "a < 2 ^ nat (bitlen a)"
    using bitlen_bounds [OF pos] by auto
  have "(2::int) ^ 24 < 2 ^ nat (bitlen a)" using assms(1) b(2) by linarith
  then have "24 < nat (bitlen a)" by (rule power_less_imp_less_exp [rotated]) simp
  then have "25 \<le> bitlen a" by linarith
  then show "1 \<le> k" by (simp add: k_def)
  have "nat (bitlen a - 1) = 23 + k" "nat (bitlen a) = 24 + k"
    using \<open>25 \<le> bitlen a\<close> by (simp_all add: k_def)
  then show "2 ^ (23 + k) \<le> a" "a < 2 ^ (24 + k)" using b by simp_all
qed

lemma round24_small: "a < 2 ^ 24 \<Longrightarrow> round24 a = a"
  by (simp add: round24_def)

lemma round24_mono:
  assumes "0 \<le> a" "a \<le> b"
  shows "round24 a \<le> round24 b"
proof (cases "b < 2 ^ 24")
  case True
  then show ?thesis using assms by (simp add: round24_def)
next
  case bigb: False
  define kb where "kb = nat (bitlen b - 24)"
  have bb: "2 ^ (23 + kb) \<le> b" "b < 2 ^ (24 + kb)" "1 \<le> kb"
    using big_bounds [of b] bigb by (simp_all add: kb_def)
  have rb: "round24 b = round_at kb b" using bigb by (simp add: round24_def kb_def)
  have lowb: "2 ^ (23 + kb) \<le> round24 b" using round_at_lower [OF bb(1)] rb by simp
  show ?thesis
  proof (cases "a < 2 ^ 24")
    case True
    have "(2::int) ^ 24 \<le> 2 ^ (23 + kb)"
      by (rule power_increasing) (use bb(3) in simp_all)
    then show ?thesis using True lowb by (simp add: round24_small)
  next
    case biga: False
    define ka where "ka = nat (bitlen a - 24)"
    have ba: "2 ^ (23 + ka) \<le> a" "a < 2 ^ (24 + ka)" "1 \<le> ka"
      using big_bounds [of a] biga by (simp_all add: ka_def)
    have ra: "round24 a = round_at ka a" using biga by (simp add: round24_def ka_def)
    have "(2::int) ^ (23 + ka) < 2 ^ (24 + kb)" using ba(1) bb(2) assms(2) by linarith
    then have "23 + ka < 24 + kb" by (rule power_less_imp_less_exp [rotated]) simp
    then have "ka \<le> kb" by simp
    show ?thesis
    proof (cases "ka = kb")
      case True
      then show ?thesis using ra rb round_at_mono [OF assms(2)] by simp
    next
      case False
      then have "24 + ka \<le> 23 + kb" using \<open>ka \<le> kb\<close> by simp
      then have "(2::int) ^ (24 + ka) \<le> 2 ^ (23 + kb)"
        by (intro power_increasing) simp_all
      moreover have "round24 a \<le> 2 ^ (24 + ka)"
        using round_at_upper [of a 24 ka] ba(2) ra by simp
      ultimately show ?thesis using lowb by linarith
    qed
  qed
qed

lemma round24_nonneg: "0 \<le> a \<Longrightarrow> 0 \<le> round24 a"
  using round24_mono [of 0 a] by (simp add: round24_def)

lemma jfloat_of_int_mono:
  assumes "n \<le> m"
  shows "jfloat_of_int n \<le> jfloat_of_int m"
proof -
  have "sgn n * round24 \<bar>n\<bar> \<le> sgn m * round24 \<bar>m\<bar>"
  proof (cases "0 \<le> n")
    case True
    then have "round24 \<bar>n\<bar> \<le> round24 \<bar>m\<bar>" using assms by (intro round24_mono) auto
    moreover have "n = 0 \<Longrightarrow> 0 \<le> sgn m * round24 \<bar>m\<bar>"
      using assms round24_nonneg [of "\<bar>m\<bar>"] by (auto simp: sgn_if)
    ultimately show ?thesis using True assms by (auto simp: sgn_if)
  next
    case False
    show ?thesis
    proof (cases "0 \<le> m")
      case True
      have "0 \<le> round24 \<bar>n\<bar>" "0 \<le> round24 \<bar>m\<bar>" by (simp_all add: round24_nonneg)
      then show ?thesis using False True by (auto simp: sgn_if)
    next
      case mneg: False
      have "round24 \<bar>m\<bar> \<le> round24 \<bar>n\<bar>" using assms False mneg by (intro round24_mono) auto
      then show ?thesis using False mneg by (auto simp: sgn_if)
    qed
  qed
  then show ?thesis unfolding jfloat_of_int_round24 by (simp only: of_int_le_iff)
qed

lemma jfloat_of_int_integer: "jfloat_of_int n \<in> \<int>"
  by (simp add: jfloat_of_int_def Let_def)

section \<open>The selection loop\<close>

lemma select_best_step:
  "select_best cv (c # cs) m b =
     (if survives cv c \<and> m < polygon_size cv c
      then select_best cv cs (polygon_size cv c) (simplified cv c)
      else select_best cv cs m b)"
  by (simp add: survives_def polygon_size_def simplified_def Let_def)

lemma select_best_filter:
  "select_best cv (filter (\<lambda>c. \<not> contourArea cv c < 1000) cs) m b = select_best cv cs m b"
  by (induction cs arbitrary: m b) (simp_all add: Let_def)

lemma select_best_cases:
  "(select_best cv cs m b = (m, b) \<and> (\<forall>c\<in>set cs. survives cv c \<longrightarrow> polygon_size cv c \<le> m))
   \<or> (\<exists>pre c post. cs = pre @ c # post \<and> survives cv c \<and> m < polygon_size cv c
         \<and> select_best cv cs m b = (polygon_size cv c, simplified cv c)
         \<and> (\<forall>c'\<in>set pre. survives cv c' \<longrightarrow> polygon_size cv c' < polygon_size cv c)
         \<and> (\<forall>c'\<in>set post. survives cv c' \<longrightarrow> polygon_size cv c' \<le> polygon_size cv c))"
proof (induction cs arbitrary: m b)
  case Nil
  then show ?case by simp
next
  case (Cons c cs)
  show ?case
  proof (cases "survives cv c \<and> m < polygon_size cv c")
    case True
    then have step: "select_best cv (c # cs) m b
        = select_best cv cs (polygon_size cv c) (simplified cv c)"
      by (simp add: select_best_step del: select_best.simps)
    from Cons.IH [of "polygon_size cv c" "simplified cv c"] show ?thesis
    proof (elim disjE conjE exE)
      assume "select_best cv cs (polygon_size cv c) (simplified cv c)
                = (polygon_size cv c, simplified cv c)"
        and "\<forall>c'\<in>set cs. survives cv c' \<longrightarrow> polygon_size cv c' \<le> polygon_size cv c"
      then have "c # cs = [] @ c # cs \<and> survives cv c \<and> m < polygon_size cv c
         \<and> select_best cv (c # cs) m b = (polygon_size cv c, simplified cv c)
         \<and> (\<forall>c'\<in>set []. survives cv c' \<longrightarrow> polygon_size cv c' < polygon_size cv c)
         \<and> (\<forall>c'\<in>set cs. survives cv c' \<longrightarrow> polygon_size cv c' \<le> polygon_size cv c)"
        using True step by simp
      then show ?thesis by blast
    next
      fix pre d post
      assume a: "cs = pre @ d # post" "survives cv d" "polygon_size cv c < polygon_size cv d"
        "select_best cv cs (polygon_size cv c) (simplified cv c)
           = (polygon_size cv d, simplified cv d)"
        "\<forall>c'\<in>set pre. survives cv c' \<longrightarrow> polygon_size cv c' < polygon_size cv d"
        "\<forall>c'\<in>set post. survives cv c' \<longrightarrow> polygon_size cv c' \<le> polygon_size cv d"
      then have "c # cs = (c # pre) @ d # post \<and> survives cv d \<and> m < polygon_size cv d
         \<and> select_best cv (c # cs) m b = (polygon_size cv d, simplified cv d)
         \<and> (\<forall>c'\<in>set (c # pre). survives cv c' \<longrightarrow> polygon_size cv c' < polygon_size cv d)
         \<and> (\<forall>c'\<in>set post. survives cv c' \<longrightarrow> polygon_size cv c' \<le> polygon_size cv d)"
        using True step by auto
      then show ?thesis by blast
    qed
  next
    case False
    then have step: "select_best cv (c # cs) m b = select_best cv cs m b"
      by (auto simp add: select_best_step simp del: select_best.simps)
    from Cons.IH [of m b] show ?thesis
    proof (elim disjE conjE exE)
      assume "select_best cv cs m b = (m, b)"
        and "\<forall>c'\<in>set cs. survives cv c' \<longrightarrow> polygon_size cv c' \<le> m"
      then show ?thesis using False step by auto
    next
      fix pre d post
      assume a: "cs = pre @ d # post" "survives cv d" "m < polygon_size cv d"
        "select_best cv cs m b = (polygon_size cv d, simplified cv d)"
        "\<forall>c'\<in>set pre. survives cv c' \<longrightarrow> polygon_size cv c' < polygon_size cv d"
        "\<forall>c'\<in>set post. survives cv c' \<longrightarrow> polygon_size cv c' \<le> polygon_size cv d"
      then have "c # cs = (c # pre) @ d # post \<and> survives cv d \<and> m < polygon_size cv d
         \<and> select_best cv (c # cs) m b = (polygon_size cv d, simplified cv d)
         \<and> (\<forall>c'\<in>set (c # pre). survives cv c' \<longrightarrow> polygon_size cv c' < polygon_size cv d)
         \<and> (\<forall>c'\<in>set post. survives cv c' \<longrightarrow> polygon_size cv c' \<le> polygon_size cv d)"
        using False step by auto
      then show ?thesis by blast
    qed
  qed
qed

lemma best_polygon_cases:
  fixes cv img
  defines "cs \<equiv> contours_of cv img"
  shows "(best_polygon cv img = [] \<and> (\<forall>c\<in>set cs. survives cv c \<longrightarrow> polygon_size cv c \<le> 0))
   \<or> (\<exists>pre c post. cs = pre @ c # post \<and> survives cv c \<and> 0 < polygon_size cv c
         \<and> best_polygon cv img = simplified cv c
         \<and> (\<forall>c'\<in>set pre. survives cv c' \<longrightarrow> polygon_size cv c' < polygon_size cv c)
         \<and> (\<forall>c'\<in>set post. survives cv c' \<longrightarrow> polygon_size cv c' \<le> polygon_size cv c))"
  using select_best_cases [of cv cs 0 "[]"] unfolding best_polygon_def cs_def
  by (elim disjE conjE exE) (simp, metis snd_conv)

lemma detect_Some:
  "detectDocumentContour cv std_sort imagePath = Some r \<longleftrightarrow>
     \<not> mat_empty cv (imread cv imagePath)
     \<and> length (best_polygon cv (imread cv imagePath)) = 4
     \<and> r = order_points std_sort (best_polygon cv (imread cv imagePath))"
  by (auto simp: detectDocumentContour_def Let_def)

lemma detect_None:
  "detectDocumentContour cv std_sort imagePath = None \<longleftrightarrow>
     mat_empty cv (imread cv imagePath)
     \<or> length (best_polygon cv (imread cv imagePath)) \<noteq> 4"
  by (auto simp: detectDocumentContour_def Let_def)

lemma sorted4:
  assumes "std_sort_contract std_sort" "length best = 4"
  shows "\<exists>a b c d. std_sort best = [a, b, c, d] \<and> mset [a, b, c, d] = mset best
           \<and> py a \<le> py b \<and> py b \<le> py c \<and> py c \<le> py d"
proof -
  have m: "mset (std_sort best) = mset best"
    and s: "sorted_wrt (\<lambda>a b. \<not> py b < py a) (std_sort best)"
    using assms(1) by (simp_all add: std_sort_contract_def)
  have "length (std_sort best) = 4" using m assms(2) by (metis size_mset)
  then obtain a b c d where e: "std_sort best = [a, b, c, d]"
    by (auto simp: length_Suc_conv numeral_eq_Suc)
  show ?thesis using m s unfolding e by auto
qed

lemma sort_by_y_contract: "std_sort_contract sort_by_y"
  unfolding std_sort_contract_def sort_by_y_def
proof (intro allI conjI)
  fix xs :: "point list"
  show "mset (sort_key py xs) = mset xs" by simp
  have "sorted (map py (sort_key py xs))" by simp
  then show "sorted_wrt (\<lambda>a b. \<not> py b < py a) (sort_key py xs)"
    by (simp add: sorted_wrt_map not_less)
qed

lemma detect_scene:
  "detectDocumentContour (term_cv scene) sort_by_y ''page.jpg''
     = Some [100, 120, 650, 90, 680, 540, 80, 560]"
  by (simp add: detectDocumentContour_def best_polygon_def contours_of_def term_cv_def scene_def
    polygon_area_def order_points_def sort_by_y_def jfloat_of_int_def Let_def)

section \<open>Corner ordering\<close>

text \<open>
  C4. When \<open>detectDocumentContour\<close> returns an array, the four points of the selected
  polygon have been sorted on the vertical coordinate, ascending, into \<open>a, b, c, d\<close>; the
  top pair is \<open>a, b\<close> and the bottom pair \<open>c, d\<close>; in the top pair the point with the
  smaller horizontal coordinate is TL and the other TR, in the bottom pair the point with
  the smaller horizontal coordinate is BL and the other BR; the array holds the
  coordinates in the order TL, TR, BR, BL.
\<close>

theorem corner_ordering:
  assumes "std_sort_contract std_sort"
    and "detectDocumentContour cv std_sort imagePath = Some r"
  shows "\<exists>a b c d tl tr bl br.
           mset [a, b, c, d] = mset (best_polygon cv (imread cv imagePath))
           \<and> py a \<le> py b \<and> py b \<le> py c \<and> py c \<le> py d
           \<and> (tl, tr) = (if px a < px b then (a, b) else (b, a))
           \<and> (bl, br) = (if px c < px d then (c, d) else (d, c))
           \<and> r = map jfloat_of_int [px tl, py tl, px tr, py tr, px br, py br, px bl, py bl]"
proof -
  let ?best = "best_polygon cv (imread cv imagePath)"
  have len: "length ?best = 4" and r: "r = order_points std_sort ?best"
    using assms(2) by (simp_all add: detect_Some)
  obtain a b c d where s: "std_sort ?best = [a, b, c, d]"
    and m: "mset [a, b, c, d] = mset ?best"
    and o: "py a \<le> py b" "py b \<le> py c" "py c \<le> py d"
    using sorted4 [OF assms(1) len] by blast
  define tl where "tl = (if px a < px b then a else b)"
  define tr where "tr = (if px a < px b then b else a)"
  define bl where "bl = (if px c < px d then c else d)"
  define br where "br = (if px c < px d then d else c)"
  have "r = map jfloat_of_int [px tl, py tl, px tr, py tr, px br, py br, px bl, py bl]"
    unfolding r order_points_def s by (simp add: tl_def tr_def bl_def br_def)
  moreover have "(tl, tr) = (if px a < px b then (a, b) else (b, a))"
    by (simp add: tl_def tr_def)
  moreover have "(bl, br) = (if px c < px d then (c, d) else (d, c))"
    by (simp add: bl_def br_def)
  ultimately show ?thesis using m o by blast
qed

theorem corner_ordering_witness:
  "std_sort_contract sort_by_y
   \<and> detectDocumentContour (term_cv scene) sort_by_y ''page.jpg''
       = Some (map jfloat_of_int [100, 120, 650, 90, 680, 540, 80, 560])"
proof -
  have h1: "std_sort_contract sort_by_y" by (rule sort_by_y_contract)
  have h2: "detectDocumentContour (term_cv scene) sort_by_y ''page.jpg''
     = Some [100, 120, 650, 90, 680, 540, 80, 560]" by (rule detect_scene)
  show ?thesis using h1 h2 corner_ordering [OF h1 h2] by (simp add: jfloat_of_int_def)
qed

text \<open>
  C9. Whenever \<open>detectDocumentContour\<close> returns an array \<open>r\<close>, that is
  TL \<open>= (r ! 0, r ! 1)\<close>, TR \<open>= (r ! 2, r ! 3)\<close>, BR \<open>= (r ! 4, r ! 5)\<close> and
  BL \<open>= (r ! 6, r ! 7)\<close>, then TL.x \<open>\<le>\<close> TR.x, BL.x \<open>\<le>\<close> BR.x and
  max(TL.y, TR.y) \<open>\<le>\<close> min(BL.y, BR.y), whatever the selected polygon is.
\<close>

theorem ordering_invariant:
  assumes "std_sort_contract std_sort"
    and "detectDocumentContour cv std_sort imagePath = Some r"
  shows "length r = 8 \<and> r ! 0 \<le> r ! 2 \<and> r ! 6 \<le> r ! 4
           \<and> max (r ! 1) (r ! 3) \<le> min (r ! 5) (r ! 7)"
proof -
  let ?best = "best_polygon cv (imread cv imagePath)"
  have len: "length ?best = 4" and r: "r = order_points std_sort ?best"
    using assms(2) by (simp_all add: detect_Some)
  obtain a b c d where s: "std_sort ?best = [a, b, c, d]"
    and o: "py a \<le> py b" "py b \<le> py c" "py c \<le> py d"
    using sorted4 [OF assms(1) len] by blast
  have y: "jfloat_of_int (py a) \<le> jfloat_of_int (py c)" "jfloat_of_int (py a) \<le> jfloat_of_int (py d)"
    "jfloat_of_int (py b) \<le> jfloat_of_int (py c)" "jfloat_of_int (py b) \<le> jfloat_of_int (py d)"
    using o by (auto intro!: jfloat_of_int_mono)
  have x: "px a < px b \<Longrightarrow> jfloat_of_int (px a) \<le> jfloat_of_int (px b)"
    "\<not> px a < px b \<Longrightarrow> jfloat_of_int (px b) \<le> jfloat_of_int (px a)"
    "px c < px d \<Longrightarrow> jfloat_of_int (px c) \<le> jfloat_of_int (px d)"
    "\<not> px c < px d \<Longrightarrow> jfloat_of_int (px d) \<le> jfloat_of_int (px c)"
    by (auto intro!: jfloat_of_int_mono)
  show ?thesis unfolding r order_points_def s using x y by (simp add: Let_def)
qed

theorem ordering_invariant_witness:
  "std_sort_contract sort_by_y
   \<and> detectDocumentContour (term_cv scene) sort_by_y ''page.jpg''
       = Some [100, 120, 650, 90, 680, 540, 80, 560]
   \<and> (100::real) \<le> 650 \<and> (80::real) \<le> 680 \<and> max (120::real) 90 \<le> min 540 560"
proof -
  have h1: "std_sort_contract sort_by_y" by (rule sort_by_y_contract)
  have h2: "detectDocumentContour (term_cv scene) sort_by_y ''page.jpg''
     = Some [100, 120, 650, 90, 680, 540, 80, 560]" by (rule detect_scene)
  show ?thesis using h1 h2 ordering_invariant [OF h1 h2] by simp
qed

text \<open>
  C10. Every one of the 8 values of the array returned by \<open>detectDocumentContour\<close> is an
  integer: each is the conversion to \<open>jfloat\<close> of an \<open>int\<close> coordinate.
\<close>

theorem integer_coordinates:
  assumes "detectDocumentContour cv std_sort imagePath = Some r"
  shows "length r = 8 \<and> (\<forall>v\<in>set r. v \<in> \<int>)"
proof -
  have "r = order_points std_sort (best_polygon cv (imread cv imagePath))"
    using assms by (simp add: detect_Some)
  then show ?thesis by (simp add: order_points_def Let_def jfloat_of_int_integer)
qed

theorem integer_coordinates_witness:
  "detectDocumentContour (term_cv scene) sort_by_y ''page.jpg''
     = Some [100, 120, 650, 90, 680, 540, 80, 560]
   \<and> length [100, 120, 650, 90, 680, 540, 80, 560 :: real] = 8
   \<and> (100::real) \<in> \<int>"
proof -
  have h: "detectDocumentContour (term_cv scene) sort_by_y ''page.jpg''
     = Some [100, 120, 650, 90, 680, 540, 80, 560]" by (rule detect_scene)
  show ?thesis using h integer_coordinates [OF h] by simp
qed

section \<open>Selection of the quadrilateral\<close>

lemma no_survivor_in_front:
  "\<not> survives (term_cv cs) [Point 10 10, Point 30 10, Point 30 30, Point 10 30]"
  "\<not> survives (term_cv cs) [Point 0 0, Point 400 0, Point 200 300]"
  by (simp_all add: survives_def simplified_def term_cv_def polygon_area_def)

text \<open>
  C5. When no contour of the edge map both has an area of at least 1000 and simplifies to
  a polygon of exactly 4 vertices (in particular when the edge map has no contour at all,
  as for a uniform blank image), \<open>detectDocumentContour\<close> returns \<open>nullptr\<close>, the value
  that stands for NotFound: an ordinary return value, not an exception.
\<close>

theorem not_found_without_quadrilateral:
  assumes "\<forall>c\<in>set (contours_of cv (imread cv imagePath)). \<not> survives cv c"
  shows "detectDocumentContour cv std_sort imagePath = None"
proof -
  let ?img = "imread cv imagePath"
  have "best_polygon cv ?img = []"
    using best_polygon_cases [of cv ?img] assms by auto
  then show ?thesis by (simp add: detect_None)
qed

theorem not_found_without_quadrilateral_witness:
  "\<not> survives (term_cv (take 2 scene)) (scene ! 0)
   \<and> \<not> survives (term_cv (take 2 scene)) (scene ! 1)
   \<and> contours_of (term_cv (take 2 scene)) (imread (term_cv (take 2 scene)) ''blank.jpg'')
       = [scene ! 0, scene ! 1]
   \<and> detectDocumentContour (term_cv (take 2 scene)) sort_by_y ''blank.jpg'' = None"
proof -
  have c: "contours_of (term_cv (take 2 scene)) (imread (term_cv (take 2 scene)) ''blank.jpg'')
       = [scene ! 0, scene ! 1]"
    by (simp add: contours_of_def term_cv_def scene_def)
  have n: "\<not> survives (term_cv (take 2 scene)) (scene ! 0)"
    "\<not> survives (term_cv (take 2 scene)) (scene ! 1)"
    using no_survivor_in_front [of "take 2 scene"] by (simp_all add: scene_def)
  have h: "\<forall>c\<in>set (contours_of (term_cv (take 2 scene))
             (imread (term_cv (take 2 scene)) ''blank.jpg'')). \<not> survives (term_cv (take 2 scene)) c"
    unfolding c using n by simp
  show ?thesis
    using c n not_found_without_quadrilateral [OF h, of sort_by_y] by simp
qed

text \<open>
  C6. A contour whose area is below 1000 is never selected, even if it simplifies to 4
  vertices: every array returned is the ordering of the simplified polygon of a contour
  whose area is not below 1000, and the polygon the loop selects is the same when the
  contours below 1000 are removed from the list beforehand.
\<close>

theorem small_contours_never_selected:
  "(\<forall>r. detectDocumentContour cv std_sort imagePath = Some r \<longrightarrow>
      (\<exists>c\<in>set (contours_of cv (imread cv imagePath)).
         \<not> contourArea cv c < 1000
         \<and> best_polygon cv (imread cv imagePath) = simplified cv c
         \<and> r = order_points std_sort (simplified cv c)))
   \<and> snd (select_best cv
          (filter (\<lambda>c. \<not> contourArea cv c < 1000) (contours_of cv (imread cv imagePath))) 0 [])
       = best_polygon cv (imread cv imagePath)"
proof (intro conjI allI impI)
  fix r
  let ?img = "imread cv imagePath"
  assume a: "detectDocumentContour cv std_sort imagePath = Some r"
  then have len: "length (best_polygon cv ?img) = 4"
    and r: "r = order_points std_sort (best_polygon cv ?img)"
    by (simp_all add: detect_Some)
  from best_polygon_cases [of cv ?img] len
  obtain pre c post where "contours_of cv ?img = pre @ c # post" "survives cv c"
    "best_polygon cv ?img = simplified cv c"
    by auto
  then show "\<exists>c\<in>set (contours_of cv ?img). \<not> contourArea cv c < 1000
         \<and> best_polygon cv ?img = simplified cv c
         \<and> r = order_points std_sort (simplified cv c)"
    using r by (auto simp: survives_def)
next
  show "snd (select_best cv
          (filter (\<lambda>c. \<not> contourArea cv c < 1000) (contours_of cv (imread cv imagePath))) 0 [])
       = best_polygon cv (imread cv imagePath)"
    by (simp only: select_best_filter best_polygon_def)
qed

theorem small_contours_never_selected_witness:
  "detectDocumentContour (term_cv scene) sort_by_y ''page.jpg''
     = Some [100, 120, 650, 90, 680, 540, 80, 560]
   \<and> contourArea (term_cv scene) (scene ! 0) = 400
   \<and> length (simplified (term_cv scene) (scene ! 0)) = 4
   \<and> best_polygon (term_cv scene) (imread (term_cv scene) ''page.jpg'') = scene ! 2
   \<and> contourArea (term_cv scene) (scene ! 2) = 256000"
proof -
  have h: "detectDocumentContour (term_cv scene) sort_by_y ''page.jpg''
     = Some [100, 120, 650, 90, 680, 540, 80, 560]" by (rule detect_scene)
  have "contourArea (term_cv scene) (scene ! 0) = 400"
    "length (simplified (term_cv scene) (scene ! 0)) = 4"
    "best_polygon (term_cv scene) (imread (term_cv scene) ''page.jpg'') = scene ! 2"
    "contourArea (term_cv scene) (scene ! 2) = 256000"
    by (simp_all add: term_cv_def scene_def polygon_area_def simplified_def best_polygon_def
      contours_of_def)
  then show ?thesis
    using h small_contours_never_selected [of "term_cv scene" sort_by_y "''page.jpg''"]
    by simp
qed

text \<open>
  C7. Among the surviving simplified polygons with exactly 4 vertices, the one with the
  largest enclosed area is selected and returned: the array returned is the ordering of a
  surviving polygon that is strictly larger than every survivor before it in the list and
  at least as large as every survivor after it; and an array is returned as soon as the
  image has loaded and some survivor has a positive area.
\<close>

theorem largest_quadrilateral_selected:
  "(\<not> mat_empty cv (imread cv imagePath)
      \<and> (\<exists>c\<in>set (contours_of cv (imread cv imagePath)). survives cv c \<and> 0 < polygon_size cv c)
      \<longrightarrow> detectDocumentContour cv std_sort imagePath \<noteq> None)
   \<and> (\<forall>r. detectDocumentContour cv std_sort imagePath = Some r \<longrightarrow>
        (\<exists>pre c post.
           contours_of cv (imread cv imagePath) = pre @ c # post
           \<and> survives cv c
           \<and> r = order_points std_sort (simplified cv c)
           \<and> (\<forall>c'\<in>set pre. survives cv c' \<longrightarrow> polygon_size cv c' < polygon_size cv c)
           \<and> (\<forall>c'\<in>set post. survives cv c' \<longrightarrow> polygon_size cv c' \<le> polygon_size cv c)))"
proof (intro conjI allI impI)
  let ?img = "imread cv imagePath"
  assume a: "\<not> mat_empty cv ?img
      \<and> (\<exists>c\<in>set (contours_of cv ?img). survives cv c \<and> 0 < polygon_size cv c)"
  from best_polygon_cases [of cv ?img] a
  obtain c where "survives cv c" "best_polygon cv ?img = simplified cv c"
    by (auto simp: not_le)
  then have "length (best_polygon cv ?img) = 4" by (simp add: survives_def)
  then show "detectDocumentContour cv std_sort imagePath \<noteq> None"
    using a by (simp add: detect_None)
next
  fix r
  let ?img = "imread cv imagePath"
  assume a: "detectDocumentContour cv std_sort imagePath = Some r"
  then have len: "length (best_polygon cv ?img) = 4"
    and r: "r = order_points std_sort (best_polygon cv ?img)"
    by (simp_all add: detect_Some)
  from best_polygon_cases [of cv ?img] len
  obtain pre c post where "contours_of cv ?img = pre @ c # post" "survives cv c"
    "best_polygon cv ?img = simplified cv c"
    "\<forall>c'\<in>set pre. survives cv c' \<longrightarrow> polygon_size cv c' < polygon_size cv c"
    "\<forall>c'\<in>set post. survives cv c' \<longrightarrow> polygon_size cv c' \<le> polygon_size cv c"
    by auto
  then show "\<exists>pre c post.
           contours_of cv ?img = pre @ c # post
           \<and> survives cv c
           \<and> r = order_points std_sort (simplified cv c)
           \<and> (\<forall>c'\<in>set pre. survives cv c' \<longrightarrow> polygon_size cv c' < polygon_size cv c)
           \<and> (\<forall>c'\<in>set post. survives cv c' \<longrightarrow> polygon_size cv c' \<le> polygon_size cv c)"
    using r by metis
qed

theorem largest_quadrilateral_selected_witness:
  "\<not> mat_empty (term_cv scene) (imread (term_cv scene) ''page.jpg'')
   \<and> survives (term_cv scene) (scene ! 3)
   \<and> polygon_size (term_cv scene) (scene ! 3) = 6000
   \<and> polygon_size (term_cv scene) (scene ! 2) = 256000
   \<and> detectDocumentContour (term_cv scene) sort_by_y ''page.jpg''
       = Some [100, 120, 650, 90, 680, 540, 80, 560]"
proof -
  have h: "detectDocumentContour (term_cv scene) sort_by_y ''page.jpg''
     = Some [100, 120, 650, 90, 680, 540, 80, 560]" by (rule detect_scene)
  have "\<not> mat_empty (term_cv scene) (imread (term_cv scene) ''page.jpg'')"
    "survives (term_cv scene) (scene ! 3)"
    "polygon_size (term_cv scene) (scene ! 3) = 6000"
    "polygon_size (term_cv scene) (scene ! 2) = 256000"
    by (simp_all add: term_cv_def scene_def polygon_area_def simplified_def survives_def
      polygon_size_def)
  then show ?thesis
    using h largest_quadrilateral_selected [of "term_cv scene" "''page.jpg''" sort_by_y]
    by simp
qed

section \<open>enhanceAndWarp: guards and output size\<close>

lemma round_even_of_int: "round_even (of_int k) = k"
  by (simp add: round_even_def)

lemma round_even_nonneg: "0 \<le> r \<Longrightarrow> 0 \<le> round_even r"
  by (auto simp: round_even_def Let_def)

lemma round32_zero: "round32 0 = 0"
  by (simp add: round32_def)

lemma round32_nonneg: "0 \<le> v \<Longrightarrow> 0 \<le> round32 v"
  by (simp add: round32_def round_even_nonneg)

lemma ulp_exponent_le:
  assumes "m \<noteq> 0" "\<bar>m\<bar> < 2 ^ 24" "- 149 \<le> e"
  shows "ulp_exponent (of_int m * 2 powi e) \<le> e"
proof -
  let ?v = "of_int m * (2::real) powi e"
  have pos: "0 < \<bar>?v\<bar>" using assms(1) by simp
  have "\<bar>?v\<bar> = of_int \<bar>m\<bar> * 2 powi e" by (simp add: abs_mult)
  also have "\<dots> < 2 ^ 24 * 2 powi e"
  proof -
    have "(of_int \<bar>m\<bar> :: real) < of_int (2 ^ 24)" using assms(2) by (simp only: of_int_less_iff)
    then show ?thesis by simp
  qed
  also have "\<dots> = 2 powi (e + 24)" by (simp add: power_int_add)
  also have "\<dots> = 2 powr of_int (e + 24)"
    using powr_real_of_int' [of "2::real" "e + 24"] by simp
  finally have "\<bar>?v\<bar> < 2 powr of_int (e + 24)" .
  then have "log 2 \<bar>?v\<bar> < of_int (e + 24)"
    using pos log_less_iff [of 2 "\<bar>?v\<bar>" "of_int (e + 24)"] by simp
  then have "\<lfloor>log 2 \<bar>?v\<bar>\<rfloor> < e + 24" by (simp add: floor_less_iff)
  then show ?thesis using assms(3) by (simp add: ulp_exponent_def)
qed

lemma round32_exact:
  assumes "\<bar>m\<bar> < 2 ^ 24" "- 149 \<le> e"
  shows "round32 (of_int m * 2 powi e) = of_int m * 2 powi e"
proof (cases "m = 0")
  case True
  then show ?thesis by (simp add: round32_def)
next
  case False
  let ?v = "of_int m * (2::real) powi e"
  define E where "E = ulp_exponent ?v"
  have le: "E \<le> e" unfolding E_def using ulp_exponent_le [OF False assms] .
  have "?v / 2 powi E = of_int m * 2 powi (e - E)" by (simp add: power_int_diff)
  also have "\<dots> = of_int m * 2 ^ nat (e - E)" using le by (simp add: power_int_def)
  also have "\<dots> = of_int (m * 2 ^ nat (e - E))" by simp
  finally have q: "?v / 2 powi E = of_int (m * 2 ^ nat (e - E))" .
  have "round32 ?v = of_int (m * 2 ^ nat (e - E)) * 2 powi E"
    using False unfolding round32_def E_def [symmetric] q round_even_of_int by simp
  also have "\<dots> = ?v / 2 powi E * 2 powi E" unfolding q ..
  also have "\<dots> = ?v" by simp
  finally show ?thesis .
qed

lemma round32_of_int: "\<bar>m\<bar> < 2 ^ 24 \<Longrightarrow> round32 (of_int m) = of_int m"
  using round32_exact [of m 0] by simp

lemma round32_half: "\<bar>m\<bar> < 2 ^ 24 \<Longrightarrow> round32 (of_int m / 2) = of_int m / 2"
  using round32_exact [of m "- 1"] by (simp add: power_int_minus field_simps)

lemma round32_values:
  "round32 (21 / 2) = 21 / 2" "round32 (19 / 2) = 19 / 2"
  "round32 4 = 4" "round32 (- 4) = - 4" "round32 3 = 3"
  "round32 10 = 10" "round32 (- 10) = - 10" "round32 9 = 9" "round32 (- 1) = - 1"
  using round32_half [of 21] round32_half [of 19] round32_of_int [of 4] round32_of_int [of "- 4"]
    round32_of_int [of 3] round32_of_int [of 10] round32_of_int [of "- 10"] round32_of_int [of 9]
    round32_of_int [of "- 1"]
  by simp_all

lemma ulp_exponent_eq:
  assumes "2 powi k \<le> \<bar>v\<bar>" "\<bar>v\<bar> < 2 powi (k + 1)"
  shows "ulp_exponent v = max (k - 23) (- 149)"
proof -
  have pos: "0 < \<bar>v\<bar>" using assms(1) by (smt (verit) zero_less_power_int)
  have "2 powr of_int k \<le> \<bar>v\<bar>" "\<bar>v\<bar> < 2 powr (of_int k + 1)"
    using assms powr_real_of_int' [of "2::real" k] powr_real_of_int' [of "2::real" "k + 1"]
    by simp_all
  then have "\<lfloor>log 2 \<bar>v\<bar>\<rfloor> = k"
    using floor_log_eq_powr_iff [of "\<bar>v\<bar>" 2 k] pos by simp
  then show ?thesis by (simp add: ulp_exponent_def)
qed

lemma hypot_nonneg: "0 \<le> hypot x y"
  by (simp add: hypot_def round32_nonneg)

lemma hypot_zero_right: "hypot x 0 = round32 \<bar>x\<bar>"
  by (simp add: hypot_def)

lemma hypot_zero_left: "hypot 0 y = round32 \<bar>y\<bar>"
  by (simp add: hypot_def)

lemma maxWidth_nonneg: "0 \<le> maxWidth src"
  by (simp add: maxWidth_def Let_def hypot_nonneg le_max_iff_disj)

lemma maxHeight_nonneg: "0 \<le> maxHeight src"
  by (simp add: maxHeight_def Let_def hypot_nonneg le_max_iff_disj)


lemma enhanceAndWarp_written:
  assumes "\<not> mat_empty cv (imread cv inputPath)" "8 \<le> length polygon"
    and "int_cast (maxWidth (src_points (take 8 polygon))) = Some w"
    and "int_cast (maxHeight (src_points (take 8 polygon))) = Some h"
  shows "enhanceAndWarp cv inputPath outputPath polygon =
     Written (enhance cv (warp cv (imread cv inputPath) (src_points (take 8 polygon)) (w, h)))
       (imwrite cv outputPath
          (enhance cv (warp cv (imread cv inputPath) (src_points (take 8 polygon)) (w, h)))
          [IMWRITE_JPEG_QUALITY, 95])"
  using assms by (simp add: enhanceAndWarp_def Let_def)

lemma src_points_eq:
  "src_points [a, b, c, d, e, f, g, h] = [Point2f a b, Point2f c d, Point2f e f, Point2f g h]"
  by (simp add: src_points_def upt_rec)



lemma width_point: "maxWidth [Point2f 0 0, Point2f 0 0, Point2f 0 0, Point2f 0 0] = 0"
  by (simp add: maxWidth_def fsub_def hypot_zero_right round32_zero)

lemma height_point: "maxHeight [Point2f 0 0, Point2f 0 0, Point2f 0 0, Point2f 0 0] = 0"
  by (simp add: maxHeight_def fsub_def hypot_zero_left round32_zero)

lemma width_square:
  "maxWidth [Point2f 0 0, Point2f 10 0, Point2f 10 10, Point2f 0 10] = 10"
  by (simp add: maxWidth_def fsub_def hypot_zero_right round32_zero round32_values)

lemma height_square:
  "maxHeight [Point2f 0 0, Point2f 10 0, Point2f 10 10, Point2f 0 10] = 10"
  by (simp add: maxHeight_def fsub_def hypot_zero_left round32_zero round32_values)


lemma float_distance_exact_differences:
  assumes "round32 (fx p - fx q) = fx p - fx q" "round32 (fy p - fy q) = fy p - fy q"
  shows "float_distance p q = round32 (distance p q)"
  by (simp add: float_distance_def distance_def assms)

lemma term_cv_loads: "\<not> mat_empty (term_cv cs) (imread (term_cv cs) ''in.jpg'')"
  by (simp add: term_cv_def)

lemma term_cv_adaptiveThreshold: "adaptiveThreshold_spec (term_cv cs)"
  by (simp add: adaptiveThreshold_spec_def term_cv_def Let_def)

text \<open>
  C1, as the specification states it, fails: a quadrilateral whose four corners coincide
  has inferred width 0 and height 0, and the call is not refused. There is no test of the
  two dimensions anywhere in the function: it goes on to \<open>warpPerspective\<close> with
  \<open>Size(0, 0)\<close> and returns what \<open>imwrite\<close> returns. At this input every
  floating-point operation of lines 100 to 112 is exact.
\<close>

theorem degenerate_quad_counterexample:
  "maxWidth (src_points [0, 0, 0, 0, 0, 0, 0, 0]) = 0
   \<and> maxHeight (src_points [0, 0, 0, 0, 0, 0, 0, 0]) = 0
   \<and> enhanceAndWarp (term_cv []) ''in.jpg'' ''out.jpg'' [0, 0, 0, 0, 0, 0, 0, 0] =
       Written
         (Threshold
           (Gray
             (Warp (Read ''in.jpg'')
               (Transform [Point2f 0 0, Point2f 0 0, Point2f 0 0, Point2f 0 0]
                  [Point2f 0 0, Point2f (- 1) 0, Point2f (- 1) (- 1), Point2f 0 (- 1)])
               (0, 0)))
           255 ADAPTIVE_THRESH_GAUSSIAN_C THRESH_BINARY 15 10)
         True
   \<and> returned (enhanceAndWarp (term_cv []) ''in.jpg'' ''out.jpg'' [0, 0, 0, 0, 0, 0, 0, 0])
       = Some True"
  by (simp add: enhanceAndWarp_def Let_def width_point height_point int_cast_def term_cv_def
    enhance_def warp_def dst_points_def src_points_eq fsub_def round32_zero round32_values)

text \<open>
  C1, amended. For every quadrilateral of at least 8 values on an image that loads, whose
  inferred width or inferred height is at most zero and whose two dimensions the \<open>int\<close>
  casts accept, \<open>enhanceAndWarp\<close> has no Degenerate result: the warp is requested into
  \<open>Size(w, h)\<close> with \<open>w = 0\<close> or \<open>h = 0\<close>, its result is thresholded and handed to
  \<open>imwrite\<close>, and the call returns what \<open>imwrite\<close> returns.
\<close>

theorem degenerate_quad_not_rejected:
  assumes "\<not> mat_empty cv (imread cv inputPath)" and "8 \<le> length polygon"
    and "maxWidth (src_points (take 8 polygon)) \<le> 0
         \<or> maxHeight (src_points (take 8 polygon)) \<le> 0"
    and "int_cast (maxWidth (src_points (take 8 polygon))) = Some w"
    and "int_cast (maxHeight (src_points (take 8 polygon))) = Some h"
  shows "(w = 0 \<or> h = 0)
    \<and> enhanceAndWarp cv inputPath outputPath polygon =
        Written (enhance cv (warp cv (imread cv inputPath) (src_points (take 8 polygon)) (w, h)))
          (imwrite cv outputPath
            (enhance cv (warp cv (imread cv inputPath) (src_points (take 8 polygon)) (w, h)))
            [IMWRITE_JPEG_QUALITY, 95])
    \<and> returned (enhanceAndWarp cv inputPath outputPath polygon) =
        Some (imwrite cv outputPath
          (enhance cv (warp cv (imread cv inputPath) (src_points (take 8 polygon)) (w, h)))
          [IMWRITE_JPEG_QUALITY, 95])"
proof -
  let ?src = "src_points (take 8 polygon)"
  have "maxWidth ?src = 0 \<or> maxHeight ?src = 0"
    using assms(3) maxWidth_nonneg [of ?src] maxHeight_nonneg [of ?src] by linarith
  then have "w = 0 \<or> h = 0"
    using assms(4,5) by (auto simp: int_cast_def)
  then show ?thesis
    using enhanceAndWarp_written [OF assms(1,2,4,5), of outputPath] by simp
qed

theorem degenerate_quad_not_rejected_witness:
  "\<not> mat_empty (term_cv []) (imread (term_cv []) ''in.jpg'')
   \<and> (8::nat) \<le> length [0, 0, 0, 0, 0, 0, 0, 0 :: real]
   \<and> maxWidth (src_points (take 8 [0, 0, 0, 0, 0, 0, 0, 0])) \<le> 0
   \<and> int_cast (maxWidth (src_points (take 8 [0, 0, 0, 0, 0, 0, 0, 0]))) = Some 0
   \<and> int_cast (maxHeight (src_points (take 8 [0, 0, 0, 0, 0, 0, 0, 0]))) = Some 0
   \<and> returned (enhanceAndWarp (term_cv []) ''in.jpg'' ''out.jpg'' [0, 0, 0, 0, 0, 0, 0, 0])
       = Some True"
proof -
  have h1: "\<not> mat_empty (term_cv []) (imread (term_cv []) ''in.jpg'')"
    by (rule term_cv_loads)
  have h2: "8 \<le> length [0, 0, 0, 0, 0, 0, 0, 0 :: real]" by simp
  have h3: "maxWidth (src_points (take 8 [0, 0, 0, 0, 0, 0, 0, 0])) \<le> 0
         \<or> maxHeight (src_points (take 8 [0, 0, 0, 0, 0, 0, 0, 0])) \<le> 0"
    by (simp add: src_points_eq width_point)
  have h4: "int_cast (maxWidth (src_points (take 8 [0, 0, 0, 0, 0, 0, 0, 0]))) = Some 0"
    by (simp add: src_points_eq width_point int_cast_def)
  have h5: "int_cast (maxHeight (src_points (take 8 [0, 0, 0, 0, 0, 0, 0, 0]))) = Some 0"
    by (simp add: src_points_eq height_point int_cast_def)
  show ?thesis
    using h1 h2 h4 h5 degenerate_quad_not_rejected [OF h1 h2 h3 h4 h5, of "''out.jpg''"]
    by (simp add: src_points_eq width_point term_cv_def)
qed




text \<open>
  Where a coordinate difference rounds up, the inferred width follows the rounded value:
  for TL.x \<open>= - (2 powi (- 21) + 2 powi (- 31))\<close> and TR.x \<open>= 11 - 2 powi (- 20)\<close>, both
  binary32 numbers, the exact distance is below 11 and the width is 11, so the warp is
  into 11 by 4 pixels.
\<close>

lemma round32_example: "round32 (23622319105 / 2147483648) = 11"
proof -
  let ?v = "23622319105 / 2147483648 :: real"
  have e: "ulp_exponent ?v = - 20"
    using ulp_exponent_eq [of 3 ?v] by (simp add: power_int_def)
  have f: "\<lfloor>23622319105 / 2048 :: real\<rfloor> = 11534335"
    by (simp add: floor_eq_iff)
  have q: "?v / 2 powi (- 20) = 23622319105 / 2048"
    by (simp add: power_int_minus)
  have "round_even (23622319105 / 2048) = 11534336"
    unfolding round_even_def f by (simp add: Let_def)
  then show ?thesis
    unfolding round32_def e q by (simp add: power_int_minus)
qed

lemma rounded_width_example:
  "round32 (- (1025 / 2147483648)) = - (1025 / 2147483648)
   \<and> round32 (11534335 / 1048576) = 11534335 / 1048576
   \<and> \<lfloor>distance (Point2f (11534335 / 1048576) 0) (Point2f (- (1025 / 2147483648)) 0)\<rfloor> = 10
   \<and> float_distance (Point2f (11534335 / 1048576) 0) (Point2f (- (1025 / 2147483648)) 0) = 11
   \<and> enhanceAndWarp (term_cv []) ''in.jpg'' ''out.jpg''
        [- (1025 / 2147483648), 0, 11534335 / 1048576, 0,
         11534335 / 1048576, 4, - (1025 / 2147483648), 4] =
       Written
         (Threshold
           (Gray
             (Warp (Read ''in.jpg'')
               (Transform
                  [Point2f (- (1025 / 2147483648)) 0, Point2f (11534335 / 1048576) 0,
                   Point2f (11534335 / 1048576) 4, Point2f (- (1025 / 2147483648)) 4]
                  [Point2f 0 0, Point2f 10 0, Point2f 10 3, Point2f 0 3])
               (11, 4)))
           255 ADAPTIVE_THRESH_GAUSSIAN_C THRESH_BINARY 15 10)
         True"
proof -
  have a: "round32 (- (1025 / 2147483648)) = - (1025 / 2147483648)"
    using round32_exact [of "- 1025" "- 31"] by (simp add: power_int_minus)
  have b: "round32 (11534335 / 1048576) = 11534335 / 1048576"
    using round32_exact [of 11534335 "- 20"] by (simp add: power_int_minus)
  have d: "distance (Point2f (11534335 / 1048576) 0) (Point2f (- (1025 / 2147483648)) 0)
      = 23622319105 / 2147483648"
    by (simp add: distance_def)
  have c: "\<lfloor>distance (Point2f (11534335 / 1048576) 0)
      (Point2f (- (1025 / 2147483648)) 0)\<rfloor> = 10"
    unfolding d by (simp add: floor_eq_iff)
  have r: "round32 (11534335 / 1048576 + 1025 / 2147483648) = 11"
    using round32_example by simp
  have r11: "round32 11 = 11" "round32 10 = 10"
    using round32_of_int [of 11] round32_of_int [of 10] by simp_all
  have fd: "float_distance (Point2f (11534335 / 1048576) 0) (Point2f (- (1025 / 2147483648)) 0)
      = 11"
    by (simp add: float_distance_def r round32_example round32_zero r11)
  have w: "maxWidth [Point2f (- (1025 / 2147483648)) 0, Point2f (11534335 / 1048576) 0,
                   Point2f (11534335 / 1048576) 4, Point2f (- (1025 / 2147483648)) 4] = 11"
    by (simp add: maxWidth_def fsub_def hypot_zero_right r round32_example round32_zero r11)
  have h: "maxHeight [Point2f (- (1025 / 2147483648)) 0, Point2f (11534335 / 1048576) 0,
                   Point2f (11534335 / 1048576) 4, Point2f (- (1025 / 2147483648)) 4] = 4"
    by (simp add: maxHeight_def fsub_def hypot_zero_left round32_zero round32_values)
  have e: "enhanceAndWarp (term_cv []) ''in.jpg'' ''out.jpg''
        [- (1025 / 2147483648), 0, 11534335 / 1048576, 0,
         11534335 / 1048576, 4, - (1025 / 2147483648), 4] =
       Written
         (Threshold
           (Gray
             (Warp (Read ''in.jpg'')
               (Transform
                  [Point2f (- (1025 / 2147483648)) 0, Point2f (11534335 / 1048576) 0,
                   Point2f (11534335 / 1048576) 4, Point2f (- (1025 / 2147483648)) 4]
                  [Point2f 0 0, Point2f 10 0, Point2f 10 3, Point2f 0 3])
               (11, 4)))
           255 ADAPTIVE_THRESH_GAUSSIAN_C THRESH_BINARY 15 10)
         True"
    by (simp add: enhanceAndWarp_def Let_def w h int_cast_def term_cv_def
      enhance_def warp_def dst_points_def src_points_eq fsub_def round32_values r11)
  show ?thesis using a b c fd e by (intro conjI)
qed

section \<open>enhanceAndWarp: the length of the coordinate array\<close>

text \<open>
  C3, as the specification states it, fails: an array of 9 values on an image that loads
  is not rejected; the call runs to the end and returns what \<open>imwrite\<close> returns.
\<close>

theorem extra_values_counterexample:
  "length [0, 0, 10, 0, 10, 10, 0, 10, 99 :: real] = 9
   \<and> enhanceAndWarp (term_cv []) ''in.jpg'' ''out.jpg'' [0, 0, 10, 0, 10, 10, 0, 10, 99] =
       Written
         (Threshold
           (Gray
             (Warp (Read ''in.jpg'')
               (Transform [Point2f 0 0, Point2f 10 0, Point2f 10 10, Point2f 0 10]
                  [Point2f 0 0, Point2f 9 0, Point2f 9 9, Point2f 0 9])
               (10, 10)))
           255 ADAPTIVE_THRESH_GAUSSIAN_C THRESH_BINARY 15 10)
         True
   \<and> returned (enhanceAndWarp (term_cv []) ''in.jpg'' ''out.jpg'' [0, 0, 10, 0, 10, 10, 0, 10, 99])
       = Some True"
  by (simp add: enhanceAndWarp_def Let_def width_square height_square int_cast_def term_cv_def
    enhance_def warp_def dst_points_def src_points_eq fsub_def round32_values)

text \<open>
  C3, amended. Every coordinate array with fewer than 8 values is rejected with
  \<open>JNI_FALSE\<close>: the call ends at the load failure of line 82 or at the length test of
  line 90, before any coordinate is read, and nothing is warped or written. An array with
  8 values or more passes the length test, and the call does exactly what it does on the
  first 8 values.
\<close>

theorem short_polygon_rejected:
  "(length polygon < 8 \<longrightarrow>
      enhanceAndWarp cv inputPath outputPath polygon =
        (if mat_empty cv (imread cv inputPath) then LoadFailed else LengthInvalid)
      \<and> returned (enhanceAndWarp cv inputPath outputPath polygon) = Some False)
   \<and> (8 \<le> length polygon \<longrightarrow>
        enhanceAndWarp cv inputPath outputPath polygon =
          enhanceAndWarp cv inputPath outputPath (take 8 polygon)
        \<and> enhanceAndWarp cv inputPath outputPath polygon \<noteq> LengthInvalid)"
  by (auto simp: enhanceAndWarp_def Let_def split: option.splits)

theorem short_polygon_rejected_witness:
  "length [0, 0, 10, 0, 10, 10, 0 :: real] < 8
   \<and> enhanceAndWarp (term_cv []) ''in.jpg'' ''out.jpg'' [0, 0, 10, 0, 10, 10, 0] = LengthInvalid
   \<and> (8::nat) \<le> length [0, 0, 10, 0, 10, 10, 0, 10, 99 :: real]
   \<and> enhanceAndWarp (term_cv []) ''in.jpg'' ''out.jpg'' [0, 0, 10, 0, 10, 10, 0, 10, 99] =
       enhanceAndWarp (term_cv []) ''in.jpg'' ''out.jpg'' [0, 0, 10, 0, 10, 10, 0, 10]"
  using short_polygon_rejected [of "[0, 0, 10, 0, 10, 10, 0]" "term_cv []" "''in.jpg''" "''out.jpg''"]
    short_polygon_rejected [of "[0, 0, 10, 0, 10, 10, 0, 10, 99]" "term_cv []" "''in.jpg''"
      "''out.jpg''"]
    term_cv_loads [of "[]"]
  by simp

section \<open>enhanceAndWarp: the threshold\<close>

text \<open>
  C8. With \<open>cv::adaptiveThreshold\<close> as the specification describes it, the image that
  \<open>enhance\<close> returns has the size of the grey rectified image; for every pixel the local
  threshold is the Gaussian-weighted mean of its 15 by 15 neighbourhood minus 10, the
  pixel is 255 when its grey intensity is above that threshold and 0 otherwise, so the
  output has two levels; and every image that \<open>enhanceAndWarp\<close> hands to \<open>imwrite\<close> is
  such a result of \<open>enhance\<close>.
\<close>

theorem enhance_binarizes:
  assumes "adaptiveThreshold_spec cv"
  shows "(let gray = cvtColor_BGR2GRAY cv warped; out = enhance cv warped in
          rows cv out = rows cv gray \<and> cols cv out = cols cv gray
          \<and> (\<forall>y<rows cv gray. \<forall>x<cols cv gray.
                pixel cv out y x =
                  (if gaussianMean cv gray 15 y x - 10 < pixel cv gray y x then 255 else 0)
                \<and> pixel cv out y x \<in> {0, 255}))
     \<and> (\<forall>out ok. enhanceAndWarp cv inputPath outputPath polygon = Written out ok \<longrightarrow>
          (\<exists>warped. out = enhance cv warped))"
proof (intro conjI)
  let ?gray = "cvtColor_BGR2GRAY cv warped"
  have spec: "rows cv (enhance cv warped) = rows cv ?gray"
    "cols cv (enhance cv warped) = cols cv ?gray"
    "\<And>y x. y < rows cv ?gray \<Longrightarrow> x < cols cv ?gray \<Longrightarrow>
       pixel cv (enhance cv warped) y x =
         (if gaussianMean cv ?gray 15 y x - 10 < pixel cv ?gray y x then 255 else 0)"
    using assms unfolding adaptiveThreshold_spec_def enhance_def Let_def by blast+
  show "let gray = cvtColor_BGR2GRAY cv warped; out = enhance cv warped in
          rows cv out = rows cv gray \<and> cols cv out = cols cv gray
          \<and> (\<forall>y<rows cv gray. \<forall>x<cols cv gray.
                pixel cv out y x =
                  (if gaussianMean cv gray 15 y x - 10 < pixel cv gray y x then 255 else 0)
                \<and> pixel cv out y x \<in> {0, 255})"
    unfolding Let_def using spec by simp
  show "\<forall>out ok. enhanceAndWarp cv inputPath outputPath polygon = Written out ok \<longrightarrow>
          (\<exists>warped. out = enhance cv warped)"
    by (auto simp: enhanceAndWarp_def Let_def split: if_splits option.splits)
qed

theorem enhance_binarizes_witness:
  "adaptiveThreshold_spec (term_cv [])
   \<and> rows (term_cv []) (enhance (term_cv []) (Warp (Read ''in.jpg'') (Transform [] []) (10, 4))) = 4
   \<and> cols (term_cv []) (enhance (term_cv []) (Warp (Read ''in.jpg'') (Transform [] []) (10, 4))) = 10
   \<and> pixel (term_cv []) (Gray (Warp (Read ''in.jpg'') (Transform [] []) (10, 4))) 3 9 = 200
   \<and> gaussianMean (term_cv []) (Gray (Warp (Read ''in.jpg'') (Transform [] []) (10, 4))) 15 3 9 = 200
   \<and> pixel (term_cv []) (enhance (term_cv []) (Warp (Read ''in.jpg'') (Transform [] []) (10, 4))) 3 9
       = 255"
proof -
  have h: "adaptiveThreshold_spec (term_cv [])" by (rule term_cv_adaptiveThreshold)
  show ?thesis
    using h enhance_binarizes [OF h, of "Warp (Read ''in.jpg'') (Transform [] []) (10, 4)"
        "''in.jpg''" "''out.jpg''" "[]"]
    by (simp add: term_cv_def enhance_def)
qed

end
